theory Spec2Isabelle
  imports Main "HOL-Library.Word" "HOL-Library.Sublist"
begin

section \<open>Strings as the ingestion script sees them\<close>

text \<open>
  The ingestion script (\<^verbatim>\<open>scripts/parseReadme.ts\<close>, the version with the image cache) works
  on JavaScript strings. They are modelled as \<^typ>\<open>string\<close>, one \<^typ>\<open>char\<close> per code unit, so
  the model covers texts whose code units are below 256. In that range the white space of
  \<^verbatim>\<open>String.prototype.trim\<close> and of the regular expression class \<^verbatim>\<open>\s\<close> is TAB, LF, VT, FF, CR,
  SPACE and NBSP.
\<close>

definition is_space :: "char \<Rightarrow> bool" where
  "is_space c \<longleftrightarrow> c \<in> set [CHR 0x09, CHR 0x0A, CHR 0x0B, CHR 0x0C, CHR 0x0D, CHR 0x20, CHR 0xA0]"

definition trim :: "string \<Rightarrow> string" where
  "trim s = rev (dropWhile is_space (rev (dropWhile is_space s)))"

definition startsWith :: "string \<Rightarrow> string \<Rightarrow> bool" where
  "startsWith s p \<longleftrightarrow> take (length p) s = p"

definition endsWith :: "string \<Rightarrow> string \<Rightarrow> bool" where
  "endsWith s p \<longleftrightarrow> length p \<le> length s \<and> drop (length s - length p) s = p"

text \<open>
  \<^verbatim>\<open>s.split(sep)\<close> for a separator that is one code unit out of a class: the pieces between
  the separators, never an empty array.
\<close>

fun split_on :: "(char \<Rightarrow> bool) \<Rightarrow> string \<Rightarrow> string list" where
  "split_on P [] = [[]]"
| "split_on P (c # cs) =
     (if P c then [] # split_on P cs
      else (case split_on P cs of
              r # rs \<Rightarrow> (c # r) # rs
            | [] \<Rightarrow> [[c]]))"

text \<open>\<^verbatim>\<open>toLowerCase\<close> on code units below 256: A-Z and the Latin-1 capitals except the
  multiplication sign move up by 32.\<close>

definition lower_char :: "char \<Rightarrow> char" where
  "lower_char c =
     (let n = (of_char c :: nat)
      in if (65 \<le> n \<and> n \<le> 90) \<or> (192 \<le> n \<and> n \<le> 222 \<and> n \<noteq> 215)
         then char_of (n + 32) else c)"

definition toLowerCase :: "string \<Rightarrow> string" where
  "toLowerCase s = map lower_char s"

section \<open>Data model\<close>

datatype CompatibilityFlag = Check | Cross | Question

record Compatibility =
  v0 :: CompatibilityFlag
  v1_8 :: CompatibilityFlag
  v2_4 :: CompatibilityFlag
  trident :: CompatibilityFlag
  v0_1 :: CompatibilityFlag

datatype printer_key = Key_v0 | Key_v0_1 | Key_v1_8 | Key_v2_4 | Key_trident

fun get_flag :: "Compatibility \<Rightarrow> printer_key \<Rightarrow> CompatibilityFlag" where
  "get_flag c Key_v0 = v0 c"
| "get_flag c Key_v0_1 = v0_1 c"
| "get_flag c Key_v1_8 = v1_8 c"
| "get_flag c Key_v2_4 = v2_4 c"
| "get_flag c Key_trident = trident c"

fun set_flag :: "printer_key \<Rightarrow> CompatibilityFlag \<Rightarrow> Compatibility \<Rightarrow> Compatibility" where
  "set_flag Key_v0 f c = c\<lparr>v0 := f\<rparr>"
| "set_flag Key_v0_1 f c = c\<lparr>v0_1 := f\<rparr>"
| "set_flag Key_v1_8 f c = c\<lparr>v1_8 := f\<rparr>"
| "set_flag Key_v2_4 f c = c\<lparr>v2_4 := f\<rparr>"
| "set_flag Key_trident f c = c\<lparr>trident := f\<rparr>"

section \<open>Compatibility normalizer\<close>

definition PRINTER_SYNONYMS :: "(printer_key \<times> string list) list" where
  "PRINTER_SYNONYMS =
     [(Key_v0, [''V0'', ''V0.0'', ''V0.1'', ''V0.2'', ''V0.2r1'']),
      (Key_v0_1, [''V0.1'']),
      (Key_v1_8, [''V1.8'', ''V1'']),
      (Key_v2_4, [''V2.4'', ''V2.4r2'']),
      (Key_trident, [''VT'', ''Trident'', ''Voron Trident''])]"

definition DEFAULT_COMPATIBILITY :: Compatibility where
  "DEFAULT_COMPATIBILITY =
     \<lparr>v0 = Cross, v1_8 = Cross, v2_4 = Cross, trident = Cross, v0_1 = Cross\<rparr>"

definition compat_tokens :: "string \<Rightarrow> string list" where
  "compat_tokens cell =
     filter (\<lambda>token. token \<noteq> [])
       (map trim (split_on (\<lambda>c. c = CHR '','' \<or> c = CHR ''/'') cell))"

definition buildCompatibility :: "string \<Rightarrow> Compatibility" where
  "buildCompatibility cell =
     (let normalized = compat_tokens cell
      in fold (\<lambda>(key, synonyms) compatibility.
                 if list_ex (\<lambda>token. token \<in> set synonyms) normalized
                 then set_flag key Check compatibility
                 else compatibility)
              PRINTER_SYNONYMS DEFAULT_COMPATIBILITY)"

text \<open>The synonym list of one family, read off the table.\<close>

definition synonyms_of :: "printer_key \<Rightarrow> string list" where
  "synonyms_of key = (case map_of PRINTER_SYNONYMS key of Some syns \<Rightarrow> syns | None \<Rightarrow> [])"

section \<open>Row parser\<close>

definition MOD_BASE_URL :: string where
  "MOD_BASE_URL = ''https://github.com/VoronDesign/VoronUsers/tree/master/printer_mods''"

definition MOD_BLOB_BASE_URL :: string where
  "MOD_BLOB_BASE_URL = ''https://github.com/VoronDesign/VoronUsers/blob/master/printer_mods''"

definition RAW_BASE_URL :: string where
  "RAW_BASE_URL = ''https://raw.githubusercontent.com/VoronDesign/VoronUsers/master/printer_mods''"

definition README_FILENAME :: string where
  "README_FILENAME = ''README.md''"

text \<open>
  \<^verbatim>\<open>text.replace(/\\n/g, " ")\<close>: every backslash followed by the letter n becomes one space.
\<close>

fun replace_escaped_newlines :: "string \<Rightarrow> string" where
  "replace_escaped_newlines (c # d # r) =
     (if c = CHR 0x5C \<and> d = CHR ''n'' then CHR '' '' # replace_escaped_newlines r
      else c # replace_escaped_newlines (d # r))"
| "replace_escaped_newlines r = r"

text \<open>\<^verbatim>\<open>.replace(/\s+/g, " ")\<close>: every maximal run of white space becomes one space.\<close>

function collapse_spaces :: "string \<Rightarrow> string" where
  "collapse_spaces [] = []"
| "collapse_spaces (c # cs) =
     (if is_space c then CHR '' '' # collapse_spaces (dropWhile is_space cs)
      else c # collapse_spaces cs)"
  by pat_completeness auto
termination
  by (relation "measure length") (auto simp: le_imp_less_Suc length_dropWhile_le)

definition sanitizeDescription :: "string \<Rightarrow> string" where
  "sanitizeDescription text = trim (collapse_spaces (replace_escaped_newlines text))"

text \<open>
  The regular expression \<^verbatim>\<open>/\[([^\]]+)\]\(([^)]+)\)/\<close> tried at the head of a string. Both
  groups exclude the character that has to follow them, so each is the maximal run up to that
  character and no shorter run can succeed. The result is the pair of the two groups.
\<close>

definition link_at :: "string \<Rightarrow> (string \<times> string) option" where
  "link_at s =
     (case s of
        [] \<Rightarrow> None
      | c # r \<Rightarrow>
          if c \<noteq> CHR ''['' then None
          else (let title = takeWhile (\<lambda>x. x \<noteq> CHR '']'') r;
                    r1 = dropWhile (\<lambda>x. x \<noteq> CHR '']'') r
                in if title = [] then None
                   else (case r1 of
                           _ # p # r2 \<Rightarrow>
                             if p \<noteq> CHR ''('' then None
                             else (let rawLink = takeWhile (\<lambda>x. x \<noteq> CHR '')'') r2;
                                       r3 = dropWhile (\<lambda>x. x \<noteq> CHR '')'') r2
                                   in if rawLink = [] \<or> r3 = [] then None
                                      else Some (title, rawLink))
                         | _ \<Rightarrow> None)))"

text \<open>\<^verbatim>\<open>cell.match(...)\<close> without the g flag: the match at the leftmost position that has one.\<close>

fun link_match :: "string \<Rightarrow> (string \<times> string) option" where
  "link_match [] = None"
| "link_match (c # cs) =
     (case link_at (c # cs) of Some m \<Rightarrow> Some m | None \<Rightarrow> link_match cs)"

text \<open>\<^verbatim>\<open>rawLink.replace(/^\.\//, "")\<close>\<close>

definition strip_dot_slash :: "string \<Rightarrow> string" where
  "strip_dot_slash s = (if startsWith s ''./'' then drop 2 s else s)"

text \<open>
  \<^verbatim>\<open>/^https?:\/\//i.test(s)\<close>. Below 256 only the ASCII letters themselves match the letters
  of the pattern when case is ignored.
\<close>

definition is_http_url :: "string \<Rightarrow> bool" where
  "is_http_url s \<longleftrightarrow>
     startsWith (toLowerCase s) ''http://'' \<or> startsWith (toLowerCase s) ''https://''"

text \<open>\<^verbatim>\<open>extractLink\<close> returns the object \<^verbatim>\<open>{ title, link, sourcePath }\<close>, here a triple.\<close>

definition extractLink :: "string \<Rightarrow> string \<times> string \<times> string option" where
  "extractLink cell =
     (case link_match cell of
        None \<Rightarrow> (cell, MOD_BASE_URL, None)
      | Some (title, rawLink) \<Rightarrow>
          (let normalized = strip_dot_slash rawLink;
               isExternal = is_http_url normalized;
               link = (if isExternal then normalized else MOD_BASE_URL @ ''/'' @ normalized);
               sourcePath = (if isExternal then None else Some normalized)
           in (trim title, link, sourcePath)))"

record DraftMod =
  creator :: string
  title :: string
  description :: string
  link :: string
  compatibility :: Compatibility
  lastChanged :: "string option"
  sourcePath :: "string option"
  authorSlug :: "string option"
  image :: "string option"

text \<open>\<^verbatim>\<open>markdown.split(/\r?\n/)\<close>: the pieces between line feeds; a carriage return right before
  a line feed belongs to the separator.\<close>

definition strip_cr :: "string \<Rightarrow> string" where
  "strip_cr p = (if p \<noteq> [] \<and> last p = CHR 0x0D then butlast p else p)"

definition split_lines :: "string \<Rightarrow> string list" where
  "split_lines markdown =
     (let pieces = split_on (\<lambda>c. c = CHR 0x0A) markdown
      in map strip_cr (butlast pieces) @ [last pieces])"

text \<open>\<^verbatim>\<open>line.split("|").slice(1, -1).map((cell) => cell.trim())\<close>\<close>

definition row_cells :: "string \<Rightarrow> string list" where
  "row_cells line = map trim (butlast (tl (split_on (\<lambda>c. c = CHR ''|'') line)))"

text \<open>\<^verbatim>\<open>sourcePath?.split("/")?.[0]\<close>\<close>

definition first_segment :: "string \<Rightarrow> string" where
  "first_segment p = takeWhile (\<lambda>c. c \<noteq> CHR ''/'') p"

text \<open>The object pushed for one row of at least five cells; \<^verbatim>\<open>image\<close> is not set here.\<close>

definition make_mod :: "string \<Rightarrow> string \<Rightarrow> string \<Rightarrow> string \<Rightarrow> string \<Rightarrow> DraftMod" where
  "make_mod creator' titleCell description' compatibilityCell lastChanged' =
     (case extractLink titleCell of
        (title', link', sourcePath') \<Rightarrow>
          \<lparr>creator = creator',
           title = title',
           description = sanitizeDescription description',
           link = link',
           compatibility = buildCompatibility compatibilityCell,
           lastChanged = (if lastChanged' \<noteq> [] then Some lastChanged' else None),
           sourcePath = sourcePath',
           authorSlug = map_option first_segment sourcePath',
           image = None\<rparr>)"

text \<open>
  The loop of \<^verbatim>\<open>parseMods\<close>: its variables \<^verbatim>\<open>mods\<close>, \<^verbatim>\<open>inTable\<close> and \<^verbatim>\<open>lastCreator\<close> are
  the state, \<open>parse_step\<close> is the loop body for one line and says whether the loop goes on
  (\<^verbatim>\<open>continue\<close>, or the end of the body) or stops (\<^verbatim>\<open>break\<close>).
\<close>

record parse_state =
  mods :: "DraftMod list"
  inTable :: bool
  lastCreator :: string

datatype flow = Continue | Break

definition parse_step :: "string \<Rightarrow> parse_state \<Rightarrow> flow \<times> parse_state" where
  "parse_step line st =
     (if \<not> inTable st \<and> startsWith (trim line) ''| Creator''
      then (Continue, st\<lparr>inTable := True\<rparr>)
      else if \<not> inTable st then (Continue, st)
      else if startsWith (trim line) ''| ---'' then (Continue, st)
      else if \<not> startsWith (trim line) ''|''
        then (if inTable st then (Break, st) else (Continue, st))
      else (let cells = row_cells line
            in if length cells < 5 then (Continue, st)
               else (let initialCreator = cells ! 0;
                         titleCell = cells ! 1;
                         description' = cells ! 2;
                         compatibilityCell = cells ! 3;
                         lastChanged' = cells ! 4;
                         st1 = (if initialCreator \<noteq> [] then st\<lparr>lastCreator := initialCreator\<rparr>
                                else st);
                         creator' = (if initialCreator \<noteq> [] then initialCreator
                                     else lastCreator st)
                     in (Continue,
                         st1\<lparr>mods := mods st1 @
                               [make_mod creator' titleCell description' compatibilityCell
                                  lastChanged']\<rparr>))))"

fun parse_loop :: "string list \<Rightarrow> parse_state \<Rightarrow> parse_state" where
  "parse_loop [] st = st"
| "parse_loop (line # lines) st =
     (case parse_step line st of
        (Break, st') \<Rightarrow> st'
      | (Continue, st') \<Rightarrow> parse_loop lines st')"

definition parseMods :: "string \<Rightarrow> DraftMod list" where
  "parseMods markdown =
     mods (parse_loop (split_lines markdown) \<lparr>mods = [], inTable = False, lastCreator = []\<rparr>)"

text \<open>Lines joined by line feeds, to write a document down line by line.\<close>

fun join_lines :: "string list \<Rightarrow> string" where
  "join_lines [] = []"
| "join_lines [l] = l"
| "join_lines (l # ls) = l @ CHR 0x0A # join_lines ls"

section \<open>Reading the row parser as a specification\<close>

text \<open>
  The shape \<^verbatim>\<open>[text](target)\<close> of a markdown link inside a cell: \<open>text\<close> and \<open>target\<close> are
  not empty, \<open>text\<close> has no closing bracket and \<open>target\<close> no closing parenthesis.
\<close>

definition link_shape :: "string \<Rightarrow> string \<Rightarrow> string \<Rightarrow> string \<Rightarrow> string \<Rightarrow> bool" where
  "link_shape cell pre text target post \<longleftrightarrow>
     cell = pre @ ''['' @ text @ '']('' @ target @ '')'' @ post
     \<and> text \<noteq> [] \<and> CHR '']'' \<notin> set text \<and> target \<noteq> [] \<and> CHR '')'' \<notin> set target"

text \<open>
  The three kinds of line the loop tells apart, and the table body in the words of the
  description: the lines after the first header line, up to the first line that does not
  start with a pipe.
\<close>

definition is_header_line :: "string \<Rightarrow> bool" where
  "is_header_line line \<longleftrightarrow> startsWith (trim line) ''| Creator''"

definition is_pipe_line :: "string \<Rightarrow> bool" where
  "is_pipe_line line \<longleftrightarrow> startsWith (trim line) ''|''"

definition is_separator_line :: "string \<Rightarrow> bool" where
  "is_separator_line line \<longleftrightarrow> startsWith (trim line) ''| ---''"

definition table_body :: "string list \<Rightarrow> string list" where
  "table_body lines =
     takeWhile is_pipe_line (drop 1 (dropWhile (\<lambda>line. \<not> is_header_line line) lines))"

definition in_table_state :: "string \<Rightarrow> parse_state" where
  "in_table_state c = \<lparr>mods = [], inTable = True, lastCreator = c\<rparr>"

text \<open>
  The rows that reach \<^verbatim>\<open>mods.push\<close>: the cells of the body lines that are no separator
  lines and have at least five cells.
\<close>

definition data_rows :: "string list \<Rightarrow> string list list" where
  "data_rows lines =
     filter (\<lambda>cells. 5 \<le> length cells)
       (map row_cells (filter (\<lambda>line. \<not> is_separator_line line) (table_body lines)))"

fun emit_rows :: "string \<Rightarrow> string list list \<Rightarrow> DraftMod list" where
  "emit_rows lc [] = []"
| "emit_rows lc (cells # rows) =
     (let c = (if cells ! 0 \<noteq> [] then cells ! 0 else lc)
      in make_mod c (cells ! 1) (cells ! 2) (cells ! 3) (cells ! 4) # emit_rows c rows)"

fun carry_forward :: "string \<Rightarrow> string list \<Rightarrow> string list" where
  "carry_forward lc [] = []"
| "carry_forward lc (c # cs) =
     (if c \<noteq> [] then c # carry_forward c cs else lc # carry_forward lc cs)"


definition two_row_doc :: string where
  "two_row_doc = join_lines
     [''| Creator | Mod title | Description | Printer | Last Changed |'',
      ''| --- | --- | --- | --- | --- |'',
      ''| Alice | [One](./alice/one) | first | V0 | 2024-01-01 |'',
      ''| Bob | [Two](./bob/two) | second | V2.4 | 2024-02-02 |'']"

definition merged_creator_doc :: string where
  "merged_creator_doc = join_lines
     [''# Mods'',
      ''| Creator | Mod title | Description | Printer | Last Changed |'',
      ''| --- | --- | --- | --- | --- |'',
      ''| Alice | [Cool Mod](./cool-mod) | A nice mod. | V2.4, Trident | 2024-01-01 |'',
      ''|  | [Another](./another) | ... | V0 | 2024-02-02 |'']"

section \<open>Image resolver\<close>

definition IMAGE_FETCH_CONCURRENCY :: nat where
  "IMAGE_FETCH_CONCURRENCY = 8"

definition IMAGE_EXTENSIONS :: "string list" where
  "IMAGE_EXTENSIONS = [''.png'', ''.jpg'', ''.jpeg'', ''.gif'', ''.webp'', ''.bmp'', ''.svg'']"

text \<open>JavaScript truthiness of a value of type \<^verbatim>\<open>string | null | undefined\<close>.\<close>

definition truthy :: "string option \<Rightarrow> bool" where
  "truthy v = (case v of None \<Rightarrow> False | Some s \<Rightarrow> s \<noteq> [])"

text \<open>\<^verbatim>\<open>url.trim().split(/\s+/)[0]\<close>: the trimmed text up to its first white space.\<close>

definition stripTitle :: "string \<Rightarrow> string" where
  "stripTitle url = takeWhile (\<lambda>c. \<not> is_space c) (trim url)"

text \<open>\<^verbatim>\<open>url.toLowerCase().split(/[?#]/)[0]\<close>\<close>

definition strip_query :: "string \<Rightarrow> string" where
  "strip_query url = takeWhile (\<lambda>c. c \<noteq> CHR ''?'' \<and> c \<noteq> CHR ''#'') (toLowerCase url)"

definition isValidImage :: "string \<Rightarrow> bool" where
  "isValidImage url = list_ex (\<lambda>ext. endsWith (strip_query url) ext) IMAGE_EXTENSIONS"

text \<open>
  What the platform supplies to a run. \<open>fetch\<close> answers the n-th request of the run for a
  URL: the promise rejects (a network error), the response is not ok, reading the body
  fails, or the body arrives. \<open>url_href rel base\<close> is \<^verbatim>\<open>new URL(rel, base).href\<close>, \<open>None\<close> when
  the constructor throws. \<open>md5\<close> is the MD5 digest, sixteen bytes. \<open>to_jpeg\<close> is the \<^verbatim>\<open>sharp\<close>
  conversion followed by the write of the frame, \<open>None\<close> when either throws.
  \<open>localeCompare\<close> is the comparison of two titles, \<open>outside_exists\<close> says whether a path
  under \<^verbatim>\<open>public/\<close> that is not a plain file name inside the image directory can be accessed,
  \<open>now\<close> is the time stamp of the run.
\<close>

datatype fetch_result = Rejected | NotOk | BodyFailed | Body string

record env =
  fetch :: "nat \<Rightarrow> string \<Rightarrow> fetch_result"
  url_href :: "string \<Rightarrow> string \<Rightarrow> string option"
  md5 :: "string \<Rightarrow> 128 word"
  to_jpeg :: "string \<Rightarrow> string option"
  localeCompare :: "string \<Rightarrow> string \<Rightarrow> int"
  outside_exists :: "string \<Rightarrow> bool"
  readme_url :: string
  now :: string

text \<open>A \<^verbatim>\<open>TypeError\<close> thrown by the URL constructor inside \<^verbatim>\<open>resolveImageUrl\<close>.\<close>

datatype url_error = InvalidUrl

definition resolveImageUrl :: "env \<Rightarrow> string \<Rightarrow> string \<Rightarrow> url_error + string option" where
  "resolveImageUrl e url relativePath =
     (let cleaned = stripTitle url
      in if \<not> isValidImage cleaned then Inr None
         else if is_http_url cleaned then Inr (Some cleaned)
         else if startsWith cleaned ''//'' then Inr (Some (''https:'' @ cleaned))
         else (let relative = (if startsWith cleaned ''./'' then drop 2 cleaned else cleaned)
               in case url_href e relative (RAW_BASE_URL @ ''/'' @ relativePath @ ''/'') of
                    None \<Rightarrow> Inl InvalidUrl
                  | Some href \<Rightarrow> Inr (Some href)))"

text \<open>
  \<^verbatim>\<open>/!\[[^\]]*\]\(([^)]+)\)/\<close> at the head of a string: the captured target and the text
  after the match.
\<close>

definition md_image_at :: "string \<Rightarrow> (string \<times> string) option" where
  "md_image_at s =
     (case s of
        c1 # c2 # r \<Rightarrow>
          if c1 \<noteq> CHR ''!'' \<or> c2 \<noteq> CHR ''['' then None
          else (case dropWhile (\<lambda>x. x \<noteq> CHR '']'') r of
                  _ # p # r2 \<Rightarrow>
                    if p \<noteq> CHR ''('' then None
                    else (let target = takeWhile (\<lambda>x. x \<noteq> CHR '')'') r2;
                              r3 = dropWhile (\<lambda>x. x \<noteq> CHR '')'') r2
                          in if target = [] \<or> r3 = [] then None
                             else Some (target, tl r3))
                | _ \<Rightarrow> None)
      | _ \<Rightarrow> None)"

text \<open>
  \<^verbatim>\<open>/<img[^>]*src=["']([^"']+)["'][^>]*>/i\<close> at the head of a string. \<open>html_src_at\<close> is the part
  from \<^verbatim>\<open>src=\<close> on. The greedy \<^verbatim>\<open>[^>]*\<close> before it gives way one character at a time, so of the
  places inside the run of characters other than \<^verbatim>\<open>>\<close> where the rest matches, the last one
  is taken.
\<close>

definition is_quote :: "char \<Rightarrow> bool" where
  "is_quote c \<longleftrightarrow> c = CHR 0x22 \<or> c = CHR 0x27"

definition html_src_at :: "string \<Rightarrow> (string \<times> string) option" where
  "html_src_at s =
     (if toLowerCase (take 4 s) \<noteq> ''src='' then None
      else (case drop 4 s of
              [] \<Rightarrow> None
            | q # r \<Rightarrow>
                if \<not> is_quote q then None
                else (let target = takeWhile (\<lambda>x. \<not> is_quote x) r;
                          r1 = dropWhile (\<lambda>x. \<not> is_quote x) r
                      in if target = [] \<or> r1 = [] then None
                         else (let r2 = dropWhile (\<lambda>x. x \<noteq> CHR ''>'') (tl r1)
                               in if r2 = [] then None else Some (target, tl r2)))))"

fun last_src :: "string \<Rightarrow> (string \<times> string) option" where
  "last_src [] = None"
| "last_src (c # cs) =
     (if c = CHR ''>'' then None
      else (case last_src cs of
              Some m \<Rightarrow> Some m
            | None \<Rightarrow> html_src_at (c # cs)))"

definition html_image_at :: "string \<Rightarrow> (string \<times> string) option" where
  "html_image_at s = (if toLowerCase (take 4 s) = ''<img'' then last_src (drop 4 s) else None)"

text \<open>
  \<^verbatim>\<open>matchAll\<close> with a global pattern: the matches from left to right, each search starting
  where the match before ended. \<open>skip\<close> counts the characters still inside the last match.
\<close>

fun scan_matches :: "(string \<Rightarrow> (string \<times> string) option) \<Rightarrow> nat \<Rightarrow> string \<Rightarrow> string list" where
  "scan_matches at skip [] = []"
| "scan_matches at (Suc skip) (c # cs) = scan_matches at skip cs"
| "scan_matches at 0 (c # cs) =
     (case at (c # cs) of
        Some (capture, rest) \<Rightarrow> capture # scan_matches at (length cs - length rest) cs
      | None \<Rightarrow> scan_matches at 0 cs)"

text \<open>The loop \<^verbatim>\<open>for (const match of ...) { ...; if (candidate) return candidate; }\<close>: the
  first candidate that resolves to a non-empty string; a throw leaves the loop.\<close>

fun first_candidate :: "env \<Rightarrow> string \<Rightarrow> string list \<Rightarrow> url_error + string option" where
  "first_candidate e relativePath [] = Inr None"
| "first_candidate e relativePath (m # ms) =
     (case resolveImageUrl e m relativePath of
        Inl err \<Rightarrow> Inl err
      | Inr candidate \<Rightarrow>
          if truthy candidate then Inr candidate else first_candidate e relativePath ms)"

definition extractFirstImage :: "env \<Rightarrow> string \<Rightarrow> string \<Rightarrow> url_error + string option" where
  "extractFirstImage e markdown relativePath =
     (case first_candidate e relativePath (scan_matches md_image_at 0 markdown) of
        Inl err \<Rightarrow> Inl err
      | Inr (Some candidate) \<Rightarrow> Inr (Some candidate)
      | Inr None \<Rightarrow> first_candidate e relativePath (scan_matches html_image_at 0 markdown))"

section \<open>Image cache, materialization and the run\<close>

text \<open>
  The mutable things a run works on: the cache object, the names of the files in the image
  directory \<^verbatim>\<open>public/mod-images\<close>, the set \<^verbatim>\<open>usedLocalImages\<close>, the three counters, and the log
  of the requests made so far. The callbacks of one batch run concurrently in the script;
  here they run one after the other in the order of the batch. The cache object is read
  as the map of its own properties. Creating the image directory, listing it and deleting
  files from it are taken to succeed.
\<close>

record ImageCacheEntry =
  cached_image :: "string option"
  cached_lastChanged :: "string option"

type_synonym ImageCache = "string \<rightharpoonup> ImageCacheEntry"

record run_state =
  cache :: ImageCache
  dir :: "string list"
  usedLocalImages :: "string set"
  requests :: "string list"
  cacheHits :: nat
  downloads :: nat
  gifConversions :: nat

text \<open>A rejection that leaves \<^verbatim>\<open>main\<close>: the first fetch of the table failed, or a download of
  an image threw (with the URL and the requests made up to it).\<close>

datatype run_error = ReadmeFetchFailed | DownloadThrew string "string list"

text \<open>\<^verbatim>\<open>createHash("md5").update(url).digest("hex")\<close>: the sixteen bytes in lower-case
  hexadecimal, the most significant nibble first.\<close>

definition hex_char :: "nat \<Rightarrow> char" where
  "hex_char n = ''0123456789abcdef'' ! (n mod 16)"

definition hex_digest :: "128 word \<Rightarrow> string" where
  "hex_digest w = map (\<lambda>i. hex_char (unat (drop_bit (4 * (31 - i)) w))) [0..<32]"

definition downloadBuffer ::
    "env \<Rightarrow> string \<Rightarrow> run_state \<Rightarrow> run_error + (string option \<times> run_state)" where
  "downloadBuffer e url st =
     (let st' = st\<lparr>requests := requests st @ [url]\<rparr>
      in case fetch e (length (requests st)) url of
           Rejected \<Rightarrow> Inl (DownloadThrew url (requests st'))
         | NotOk \<Rightarrow> Inr (None, st')
         | BodyFailed \<Rightarrow> Inl (DownloadThrew url (requests st'))
         | Body buffer \<Rightarrow> Inr (Some buffer, st'))"

definition maybeMaterializeImage ::
    "env \<Rightarrow> string \<Rightarrow> run_state \<Rightarrow> run_error + (string \<times> run_state)" where
  "maybeMaterializeImage e url st =
     (if \<not> endsWith (strip_query url) ''.gif'' then Inr (url, st)
      else (let filename = hex_digest (md5 e url) @ ''.jpg''
            in if filename \<in> set (dir st) then Inr (''/mod-images/'' @ filename, st)
               else (case downloadBuffer e url st of
                       Inl err \<Rightarrow> Inl err
                     | Inr (None, st1) \<Rightarrow> Inr (url, st1)
                     | Inr (Some buffer, st1) \<Rightarrow>
                         (case to_jpeg e buffer of
                            None \<Rightarrow> Inr (url, st1)
                          | Some frame \<Rightarrow>
                              Inr (''/mod-images/'' @ filename,
                                   st1\<lparr>dir := dir st1 @ [filename]\<rparr>)))))"

definition isLocalImage :: "string option \<Rightarrow> bool" where
  "isLocalImage img \<longleftrightarrow> truthy img \<and> startsWith (the img) ''/mod-images/''"

text \<open>
  \<^verbatim>\<open>fileExists(getLocalImagePath(image))\<close>. The path is \<^verbatim>\<open>public/\<close> joined with the image
  reference less its leading slash. When that names a file directly inside the image
  directory the answer is read off the directory; for every other path it is the
  platform's.
\<close>

definition plain_name :: "string \<Rightarrow> bool" where
  "plain_name f \<longleftrightarrow> f \<noteq> [] \<and> f \<noteq> ''.'' \<and> f \<noteq> ''..'' \<and> CHR ''/'' \<notin> set f"

definition local_image_exists :: "env \<Rightarrow> run_state \<Rightarrow> string \<Rightarrow> bool" where
  "local_image_exists e st img =
     (let rel = (if startsWith img ''/'' then drop 1 img else img);
          name = drop (length ''mod-images/'') rel
      in if startsWith rel ''mod-images/'' \<and> plain_name name then name \<in> set (dir st)
         else outside_exists e rel)"

definition readme_of :: "string \<Rightarrow> string" where
  "readme_of relativePath = RAW_BASE_URL @ ''/'' @ relativePath @ ''/'' @ README_FILENAME"

definition fetchPreviewImage :: "env \<Rightarrow> string \<Rightarrow> run_state \<Rightarrow> string option \<times> run_state" where
  "fetchPreviewImage e relativePath st =
     (let readmeUrl = readme_of relativePath;
          st' = st\<lparr>requests := requests st @ [readmeUrl]\<rparr>
      in case fetch e (length (requests st)) readmeUrl of
           Rejected \<Rightarrow> (None, st')
         | NotOk \<Rightarrow> (None, st')
         | BodyFailed \<Rightarrow> (None, st')
         | Body markdown \<Rightarrow>
             (case extractFirstImage e markdown relativePath of
                Inl err \<Rightarrow> (None, st')
              | Inr found \<Rightarrow> (found, st')))"

text \<open>The part of the callback after the cache check: resolve afresh and overwrite the
  cache entry.\<close>

definition resolve_fresh ::
    "env \<Rightarrow> DraftMod \<Rightarrow> string \<Rightarrow> run_state \<Rightarrow> run_error + (DraftMod \<times> run_state)" where
  "resolve_fresh e the_mod p st =
     (case fetchPreviewImage e p st of
        (image', st1) \<Rightarrow>
          (case image' of
             None \<Rightarrow>
               Inr (the_mod, st1\<lparr>cache := (cache st1)(p \<mapsto>
                      \<lparr>cached_image = None, cached_lastChanged = lastChanged the_mod\<rparr>)\<rparr>)
           | Some img \<Rightarrow>
               if img = [] then
                 Inr (the_mod, st1\<lparr>cache := (cache st1)(p \<mapsto>
                        \<lparr>cached_image = None, cached_lastChanged = lastChanged the_mod\<rparr>)\<rparr>)
               else
                 (case maybeMaterializeImage e img (st1\<lparr>downloads := downloads st1 + 1\<rparr>) of
                    Inl err \<Rightarrow> Inl err
                  | Inr (finalImage, st3) \<Rightarrow>
                      (let st4 = st3\<lparr>cache := (cache st3)(p \<mapsto>
                                   \<lparr>cached_image = Some finalImage,
                                    cached_lastChanged = lastChanged the_mod\<rparr>)\<rparr>
                       in if finalImage = [] then Inr (the_mod, st4)
                          else Inr (the_mod\<lparr>image := Some finalImage\<rparr>,
                                    if isLocalImage (Some finalImage)
                                    then st4\<lparr>usedLocalImages :=
                                               insert finalImage (usedLocalImages st4),
                                             gifConversions := gifConversions st4 + 1\<rparr>
                                    else st4)))))"

text \<open>The callback \<^verbatim>\<open>async (mod) => { ... }\<close> of \<^verbatim>\<open>addPreviewImages\<close> for one mod.\<close>

definition process_mod ::
    "env \<Rightarrow> DraftMod \<Rightarrow> run_state \<Rightarrow> run_error + (DraftMod \<times> run_state)" where
  "process_mod e the_mod st =
     (case sourcePath the_mod of
        None \<Rightarrow> Inr (the_mod, st)
      | Some p \<Rightarrow>
          if p = [] then Inr (the_mod, st)
          else (case cache st p of
                  None \<Rightarrow> resolve_fresh e the_mod p st
                | Some cacheEntry \<Rightarrow>
                    if cached_lastChanged cacheEntry \<noteq> lastChanged the_mod
                    then resolve_fresh e the_mod p st
                    else if \<not> truthy (cached_image cacheEntry) then Inr (the_mod, st)
                    else if \<not> isLocalImage (cached_image cacheEntry)
                            \<or> local_image_exists e st (the (cached_image cacheEntry))
                    then Inr (the_mod\<lparr>image := cached_image cacheEntry\<rparr>,
                              st\<lparr>usedLocalImages :=
                                    (if isLocalImage (cached_image cacheEntry)
                                     then insert (the (cached_image cacheEntry))
                                            (usedLocalImages st)
                                     else usedLocalImages st),
                                 cacheHits := cacheHits st + 1\<rparr>)
                    else resolve_fresh e the_mod p st))"

text \<open>\<^verbatim>\<open>await Promise.all(batch.map(...))\<close>: a rejection of one callback rejects the batch.\<close>

fun run_batch ::
    "env \<Rightarrow> DraftMod list \<Rightarrow> run_state \<Rightarrow> run_error + (DraftMod list \<times> run_state)" where
  "run_batch e [] st = Inr ([], st)"
| "run_batch e (the_mod # batch) st =
     (case process_mod e the_mod st of
        Inl err \<Rightarrow> Inl err
      | Inr (the_mod', st') \<Rightarrow>
          (case run_batch e batch st' of
             Inl err \<Rightarrow> Inl err
           | Inr (batch', st'') \<Rightarrow> Inr (the_mod' # batch', st'')))"

text \<open>The loop \<^verbatim>\<open>for (let i = 0; i < mods.length; i += IMAGE_FETCH_CONCURRENCY)\<close>; the result
  holds the mods from index \<open>i\<close> on, with their images set.\<close>

function batch_loop ::
    "env \<Rightarrow> DraftMod list \<Rightarrow> nat \<Rightarrow> run_state \<Rightarrow> run_error + (DraftMod list \<times> run_state)" where
  "batch_loop e ms i st =
     (if i < length ms
      then (case run_batch e (take IMAGE_FETCH_CONCURRENCY (drop i ms)) st of
              Inl err \<Rightarrow> Inl err
            | Inr (batch', st') \<Rightarrow>
                (case batch_loop e ms (i + IMAGE_FETCH_CONCURRENCY) st' of
                   Inl err \<Rightarrow> Inl err
                 | Inr (rest', st'') \<Rightarrow> Inr (batch' @ rest', st'')))
      else Inr ([], st))"
  by pat_completeness auto
termination
  by (relation "measure (\<lambda>(e, ms, i, st). length ms - i)")
     (auto simp: IMAGE_FETCH_CONCURRENCY_def)

declare batch_loop.simps [simp del]

definition addPreviewImages ::
    "env \<Rightarrow> DraftMod list \<Rightarrow> run_state \<Rightarrow> run_error + (DraftMod list \<times> run_state)" where
  "addPreviewImages e ms st = batch_loop e ms 0 st"

definition cleanupUnusedLocalImages :: "string set \<Rightarrow> run_state \<Rightarrow> run_state" where
  "cleanupUnusedLocalImages usedImages st =
     st\<lparr>dir := filter (\<lambda>file. ''/mod-images/'' @ file \<in> usedImages) (dir st)\<rparr>"

text \<open>
  \<^verbatim>\<open>.sort((a, b) => a.title.localeCompare(b.title))\<close>. The platform's sort is stable; for a
  comparison that is a total preorder every stable sort returns the list that insertion
  from left to right returns.
\<close>

fun insert_by_title :: "(string \<Rightarrow> string \<Rightarrow> int) \<Rightarrow> DraftMod \<Rightarrow> DraftMod list \<Rightarrow> DraftMod list" where
  "insert_by_title cmp x [] = [x]"
| "insert_by_title cmp x (y # ys) =
     (if cmp (title x) (title y) < 0 then x # y # ys else y # insert_by_title cmp x ys)"

definition sort_by_title :: "(string \<Rightarrow> string \<Rightarrow> int) \<Rightarrow> DraftMod list \<Rightarrow> DraftMod list" where
  "sort_by_title cmp xs = foldl (\<lambda>sorted x. insert_by_title cmp x sorted) [] xs"

text \<open>
  A draft as the object it is: its properties in the order they were set, \<open>None\<close> for a
  property that is undefined or was never set. \<^verbatim>\<open>JSON.stringify\<close> leaves such properties out.
\<close>

datatype json = JString string | JCompat Compatibility

definition draft_props :: "DraftMod \<Rightarrow> (string \<times> json option) list" where
  "draft_props d =
     [(''creator'', Some (JString (creator d))),
      (''title'', Some (JString (title d))),
      (''description'', Some (JString (description d))),
      (''link'', Some (JString (link d))),
      (''compatibility'', Some (JCompat (compatibility d))),
      (''lastChanged'', map_option JString (lastChanged d)),
      (''sourcePath'', map_option JString (sourcePath d)),
      (''authorSlug'', map_option JString (authorSlug d)),
      (''image'', map_option JString (image d))]"

text \<open>The callback of \<^verbatim>\<open>drafts.map\<close> in \<^verbatim>\<open>main\<close>:
  \<^verbatim>\<open>const { sourcePath, ...rest } = draft; return { ...rest, repoPath, readmeUrl }\<close>.\<close>

definition to_mod :: "DraftMod \<Rightarrow> (string \<times> json option) list" where
  "to_mod draft =
     (let rest = filter (\<lambda>(key, v). key \<noteq> ''sourcePath'') (draft_props draft);
          repoPath = (if truthy (sourcePath draft)
                      then Some (''printer_mods/'' @ the (sourcePath draft)) else None);
          readmeUrl = (if truthy (sourcePath draft)
                       then Some (MOD_BLOB_BASE_URL @ ''/'' @ the (sourcePath draft) @ ''/''
                                  @ README_FILENAME)
                       else None)
      in rest @ [(''repoPath'', map_option JString repoPath),
                 (''readmeUrl'', map_option JString readmeUrl)])"

definition stringify_props :: "(string \<times> json option) list \<Rightarrow> (string \<times> json) list" where
  "stringify_props obj = List.map_filter (\<lambda>(key, v). map_option (Pair key) v) obj"

text \<open>
  \<^verbatim>\<open>main\<close>, given the cache that \<^verbatim>\<open>loadImageCache\<close> returned and the files in the image
  directory at the start. A run that is not rejected writes the snapshot and the cache and
  then cleans the image directory.
\<close>

record run_output =
  snapshot_mods :: "(string \<times> json) list list"
  lastUpdated :: string
  saved_cache :: ImageCache
  final_dir :: "string list"
  used_images :: "string set"
  all_requests :: "string list"

definition main :: "env \<Rightarrow> ImageCache \<Rightarrow> string list \<Rightarrow> run_error + run_output" where
  "main e imageCache dir0 =
     (case fetch e 0 (readme_url e) of
        Body markdown \<Rightarrow>
          (let drafts = sort_by_title (localeCompare e) (parseMods markdown);
               st0 = \<lparr>cache = imageCache, dir = dir0, usedLocalImages = {},
                      requests = [readme_url e], cacheHits = 0, downloads = 0,
                      gifConversions = 0\<rparr>
           in case addPreviewImages e drafts st0 of
                Inl err \<Rightarrow> Inl err
              | Inr (drafts', st) \<Rightarrow>
                  (let st' = cleanupUnusedLocalImages (usedLocalImages st) st
                   in Inr \<lparr>snapshot_mods = map (\<lambda>draft. stringify_props (to_mod draft)) drafts',
                           lastUpdated = now e,
                           saved_cache = cache st,
                           final_dir = dir st',
                           used_images = usedLocalImages st,
                           all_requests = requests st\<rparr>))
      | _ \<Rightarrow> Inl ReadmeFetchFailed)"


text \<open>
  The persisted fields of a mod in the words of the description, with the author slug
  added: the fields of the draft less the source path, then the image, then the repository
  path and the README link, both derived from a source path that is not empty.
\<close>

definition mod_fields :: "DraftMod \<Rightarrow> string option \<Rightarrow> (string \<times> json option) list" where
  "mod_fields d img =
     [(''creator'', Some (JString (creator d))),
      (''title'', Some (JString (title d))),
      (''description'', Some (JString (description d))),
      (''link'', Some (JString (link d))),
      (''compatibility'', Some (JCompat (compatibility d))),
      (''lastChanged'', map_option JString (lastChanged d)),
      (''authorSlug'', map_option (\<lambda>p. JString (first_segment p)) (sourcePath d)),
      (''image'', map_option JString img),
      (''repoPath'',
         (case sourcePath d of
            None \<Rightarrow> None
          | Some p \<Rightarrow> if p = [] then None else Some (JString (''printer_mods/'' @ p)))),
      (''readmeUrl'',
         (case sourcePath d of
            None \<Rightarrow> None
          | Some p \<Rightarrow>
              if p = [] then None
              else Some (JString (MOD_BLOB_BASE_URL @ ''/'' @ p @ ''/'' @ README_FILENAME))))]"


section \<open>Example runs\<close>

text \<open>A comparison of titles by code units, standing in for the locale's.\<close>

fun code_unit_compare :: "string \<Rightarrow> string \<Rightarrow> int" where
  "code_unit_compare [] [] = 0"
| "code_unit_compare [] (b # bs) = - 1"
| "code_unit_compare (a # as) [] = 1"
| "code_unit_compare (a # as) (b # bs) =
     (if (of_char a :: nat) < of_char b then - 1
      else if (of_char b :: nat) < of_char a then 1
      else code_unit_compare as bs)"

text \<open>
  A platform for the table \<open>two_row_doc\<close>: \<open>readme_one\<close> is the README of the first mod,
  the README of the second shows a PNG beside it, and \<open>gif_answer\<close> is what the request for
  the animated GIF of \<open>gif_readme\<close> meets.
\<close>

definition gif_readme :: string where
  "gif_readme = ''Look: ![demo](https://example.com/demo.gif)''"


definition example_env :: "string \<Rightarrow> fetch_result \<Rightarrow> env" where
  "example_env readme_one gif_answer =
     \<lparr>fetch = (\<lambda>n url.
         if url = ''https://example.org/table.md'' then Body two_row_doc
         else if url = readme_of ''alice/one''
           then Body readme_one
         else if url = readme_of ''bob/two''
           then Body ''![shot](./shot.png)''
         else if url = ''https://example.com/demo.gif'' then gif_answer
         else NotOk),
      url_href = (\<lambda>rel base. Some (base @ rel)),
      md5 = (\<lambda>url. 0),
      to_jpeg = (\<lambda>buffer. Some buffer),
      localeCompare = code_unit_compare,
      outside_exists = (\<lambda>path. False),
      readme_url = ''https://example.org/table.md'',
      now = ''2026-01-01T00:00:00.000Z''\<rparr>"

definition start_state :: "ImageCache \<Rightarrow> string list \<Rightarrow> run_state" where
  "start_state imageCache files =
     \<lparr>cache = imageCache, dir = files, usedLocalImages = {}, requests = [],
      cacheHits = 0, downloads = 0, gifConversions = 0\<rparr>"



section \<open>Compatibility normalizer: properties\<close>

lemma get_flag_buildCompatibility:
  "get_flag (buildCompatibility cell) key =
     (if \<exists>token \<in> set (compat_tokens cell). token \<in> set (synonyms_of key)
      then Check else Cross)"
  by (cases key)
     (simp_all add: buildCompatibility_def PRINTER_SYNONYMS_def DEFAULT_COMPATIBILITY_def
        synonyms_of_def list_ex_iff Let_def)

text \<open>
  C4. The normalizer splits the cell on commas and slashes, trims the tokens and drops the
  empty ones; a printer family is marked with the check mark exactly when one of its synonym
  tokens occurs verbatim among these tokens, and with the cross otherwise. The question-mark
  flag is never produced, and a token \<^verbatim>\<open>V0.1\<close> marks both the v0 and the v0_1 family.
\<close>

theorem buildCompatibility_flags:
  "compat_tokens cell =
      filter (\<lambda>t. t \<noteq> []) (map trim (split_on (\<lambda>c. c = CHR '','' \<or> c = CHR ''/'') cell))
   \<and> (\<forall>key. get_flag (buildCompatibility cell) key =
         (if \<exists>token \<in> set (compat_tokens cell). token \<in> set (synonyms_of key)
          then Check else Cross))
   \<and> (\<forall>key. get_flag (buildCompatibility cell) key \<noteq> Question)
   \<and> (''V0.1'' \<in> set (compat_tokens cell) \<longrightarrow>
        v0 (buildCompatibility cell) = Check \<and> v0_1 (buildCompatibility cell) = Check)"
proof (intro conjI allI)
  show "compat_tokens cell =
      filter (\<lambda>t. t \<noteq> []) (map trim (split_on (\<lambda>c. c = CHR '','' \<or> c = CHR ''/'') cell))"
    by (simp add: compat_tokens_def)
next
  fix key
  show "get_flag (buildCompatibility cell) key =
         (if \<exists>token \<in> set (compat_tokens cell). token \<in> set (synonyms_of key)
          then Check else Cross)"
    by (rule get_flag_buildCompatibility)
next
  fix key
  show "get_flag (buildCompatibility cell) key \<noteq> Question"
    by (simp add: get_flag_buildCompatibility)
next
  show "''V0.1'' \<in> set (compat_tokens cell) \<longrightarrow>
        v0 (buildCompatibility cell) = Check \<and> v0_1 (buildCompatibility cell) = Check"
  proof
  assume tok: "''V0.1'' \<in> set (compat_tokens cell)"
  have syn0: "''V0.1'' \<in> set (synonyms_of Key_v0)"
    by (simp add: synonyms_of_def PRINTER_SYNONYMS_def)
  have syn1: "''V0.1'' \<in> set (synonyms_of Key_v0_1)"
    by (simp add: synonyms_of_def PRINTER_SYNONYMS_def)
  have ex0: "\<exists>token \<in> set (compat_tokens cell). token \<in> set (synonyms_of Key_v0)"
    using tok syn0 by blast
  have ex1: "\<exists>token \<in> set (compat_tokens cell). token \<in> set (synonyms_of Key_v0_1)"
    using tok syn1 by blast
  have "get_flag (buildCompatibility cell) Key_v0 = Check"
    by (simp only: get_flag_buildCompatibility ex0 if_True)
  moreover have "get_flag (buildCompatibility cell) Key_v0_1 = Check"
    by (simp only: get_flag_buildCompatibility ex1 if_True)
  ultimately show "v0 (buildCompatibility cell) = Check \<and> v0_1 (buildCompatibility cell) = Check"
    by simp
  qed
qed

theorem buildCompatibility_flags_witness:
  "''V0.1'' \<in> set (compat_tokens ''V0.1, Trident/'')
   \<and> buildCompatibility ''V0.1, Trident/''
       = \<lparr>v0 = Check, v1_8 = Cross, v2_4 = Cross, trident = Check, v0_1 = Check\<rparr>"
proof -
  let ?c = "''V0.1, Trident/''"
  have toks: "compat_tokens ?c = [''V0.1'', ''Trident'']" by code_simp
  have tok: "''V0.1'' \<in> set (compat_tokens ?c)" by (simp add: toks)
  note th = buildCompatibility_flags[of ?c]
  from th tok have a: "v0 (buildCompatibility ?c) = Check" "v0_1 (buildCompatibility ?c) = Check"
    by blast+
  from th have f: "\<And>key. get_flag (buildCompatibility ?c) key =
         (if \<exists>token \<in> set (compat_tokens ?c). token \<in> set (synonyms_of key)
          then Check else Cross)" by blast
  have b: "v1_8 (buildCompatibility ?c) = Cross"
    using f[of Key_v1_8] by (simp add: toks synonyms_of_def PRINTER_SYNONYMS_def)
  have c: "v2_4 (buildCompatibility ?c) = Cross"
    using f[of Key_v2_4] by (simp add: toks synonyms_of_def PRINTER_SYNONYMS_def)
  have d: "trident (buildCompatibility ?c) = Check"
    using f[of Key_trident] by (simp add: toks synonyms_of_def PRINTER_SYNONYMS_def)
  from a b c d have "buildCompatibility ?c
       = \<lparr>v0 = Check, v1_8 = Cross, v2_4 = Cross, trident = Check, v0_1 = Check\<rparr>"
    by (cases "buildCompatibility ?c") simp
  with tok show ?thesis by simp
qed

section \<open>Properties of the row parser\<close>

subsection \<open>The extent of the table\<close>

lemma parse_step_outside:
  "\<not> inTable st \<Longrightarrow>
   parse_step line st = (Continue, if is_header_line line then st\<lparr>inTable := True\<rparr> else st)"
  by (simp add: parse_step_def is_header_line_def)

lemma startsWith_sep_pipe: "startsWith s ''| ---'' \<Longrightarrow> startsWith s ''|''"
  by (cases s) (auto simp: startsWith_def)

lemma parse_step_not_pipe:
  "inTable st \<Longrightarrow> \<not> is_pipe_line line \<Longrightarrow> parse_step line st = (Break, st)"
  using startsWith_sep_pipe[of "trim line"]
  by (auto simp: parse_step_def is_pipe_line_def)

lemma parse_step_pipe:
  "inTable st \<Longrightarrow> is_pipe_line line \<Longrightarrow>
   fst (parse_step line st) = Continue \<and> inTable (snd (parse_step line st))"
  by (auto simp: parse_step_def is_pipe_line_def Let_def)

lemma parse_loop_body:
  "inTable st \<Longrightarrow> parse_loop lines st = parse_loop (takeWhile is_pipe_line lines) st"
proof (induction lines arbitrary: st)
  case Nil
  then show ?case by simp
next
  case (Cons line lines)
  show ?case
  proof (cases "is_pipe_line line")
    case True
    obtain f st' where step: "parse_step line st = (f, st')" by (cases "parse_step line st")
    with parse_step_pipe[OF Cons.prems True] have "f = Continue" "inTable st'" by simp_all
    with step Cons.IH[of st'] True show ?thesis by simp
  next
    case False
    with Cons.prems show ?thesis by (simp add: parse_step_not_pipe)
  qed
qed

lemma parse_loop_header:
  "\<not> inTable st \<Longrightarrow>
   mods (parse_loop lines st) =
   mods (parse_loop (drop 1 (dropWhile (\<lambda>line. \<not> is_header_line line) lines))
           (st\<lparr>inTable := True\<rparr>))"
  by (induction lines arbitrary: st) (simp_all add: parse_step_outside)


lemma parseMods_body:
  "parseMods markdown =
     mods (parse_loop (table_body (split_lines markdown)) (in_table_state []))"
proof -
  let ?st = "\<lparr>mods = [], inTable = False, lastCreator = []\<rparr>"
  have "parseMods markdown = mods (parse_loop (split_lines markdown) ?st)"
    by (simp add: parseMods_def)
  also have "\<dots> = mods (parse_loop (drop 1 (dropWhile (\<lambda>line. \<not> is_header_line line)
                        (split_lines markdown))) (in_table_state []))"
    using parse_loop_header[of ?st "split_lines markdown"] by (simp add: in_table_state_def)
  also have "\<dots> = mods (parse_loop (table_body (split_lines markdown)) (in_table_state []))"
    using parse_loop_body[of "in_table_state []"]
    by (simp add: table_body_def in_table_state_def)
  finally show ?thesis .
qed




subsection \<open>Creator carry-forward\<close>

lemma parse_loop_mods_append:
  "inTable st \<Longrightarrow>
   mods (parse_loop lines st) =
   mods st @ emit_rows (lastCreator st)
     (filter (\<lambda>cells. 5 \<le> length cells)
        (map row_cells (filter (\<lambda>line. \<not> is_separator_line line)
           (takeWhile is_pipe_line lines))))"
proof (induction lines arbitrary: st)
  case Nil
  then show ?case by simp
next
  case (Cons line lines)
  show ?case
  proof (cases "is_pipe_line line")
    case False
    with Cons.prems show ?thesis by (simp add: parse_step_not_pipe)
  next
    case True
    note pipe = this
    show ?thesis
    proof (cases "is_separator_line line")
      case True
      then have "parse_step line st = (Continue, st)"
        using Cons.prems by (simp add: parse_step_def is_separator_line_def)
      with Cons.IH[OF Cons.prems] pipe True show ?thesis by simp
    next
      case False
      note nosep = this
      show ?thesis
      proof (cases "length (row_cells line) < 5")
        case True
        then have "parse_step line st = (Continue, st)"
          using Cons.prems pipe nosep
          by (simp add: parse_step_def is_separator_line_def is_pipe_line_def)
        with Cons.IH[OF Cons.prems] pipe nosep True show ?thesis by simp
      next
        case False
        define c where "c = (if row_cells line ! 0 \<noteq> [] then row_cells line ! 0 else lastCreator st)"
        define m where "m = make_mod c (row_cells line ! 1) (row_cells line ! 2)
                              (row_cells line ! 3) (row_cells line ! 4)"
        define st' where "st' = st\<lparr>lastCreator := c, mods := mods st @ [m]\<rparr>"
        have step: "parse_step line st = (Continue, st')"
          using Cons.prems pipe nosep False
          by (auto simp: parse_step_def is_separator_line_def is_pipe_line_def Let_def
                st'_def m_def c_def)
        have in': "inTable st'" using Cons.prems by (simp add: st'_def)
        show ?thesis
          using Cons.IH[OF in'] step pipe nosep False
          by (simp add: st'_def m_def c_def Let_def)
      qed
    qed
  qed
qed

lemma creator_make_mod [simp]: "creator (make_mod c t d k l) = c"
  by (simp add: make_mod_def split: prod.splits)

lemma creator_emit_rows: "map creator (emit_rows lc rows) = carry_forward lc (map (\<lambda>cells. cells ! 0) rows)"
  by (induction rows arbitrary: lc) (simp_all add: Let_def)

lemma length_carry_forward [simp]: "length (carry_forward lc cs) = length cs"
  by (induction cs arbitrary: lc) simp_all

lemma carry_forward_nth:
  "i < length cs \<Longrightarrow>
   (cs ! i \<noteq> [] \<longrightarrow> carry_forward lc cs ! i = cs ! i) \<and>
   (cs ! i = [] \<longrightarrow>
      (\<exists>j<i. cs ! j \<noteq> [] \<and> (\<forall>k. j < k \<and> k < i \<longrightarrow> cs ! k = []) \<and> carry_forward lc cs ! i = cs ! j)
      \<or> ((\<forall>j<i. cs ! j = []) \<and> carry_forward lc cs ! i = lc))"
proof (induction cs arbitrary: lc i)
  case Nil
  then show ?case by simp
next
  case (Cons c cs)
  show ?case
  proof (cases i)
    case 0
    then show ?thesis by simp
  next
    case (Suc n)
    define lc' where "lc' = (if c \<noteq> [] then c else lc)"
    have n: "n < length cs" using Cons.prems Suc by simp
    have cf: "carry_forward lc (c # cs) ! i = carry_forward lc' cs ! n"
      by (simp add: Suc lc'_def)
    have nth: "(c # cs) ! i = cs ! n" by (simp add: Suc)
    note IH = Cons.IH[OF n, of lc']
    show ?thesis
    proof (intro conjI impI)
      assume "(c # cs) ! i \<noteq> []"
      with IH nth cf show "carry_forward lc (c # cs) ! i = (c # cs) ! i" by simp
    next
      assume "(c # cs) ! i = []"
      with nth have e: "cs ! n = []" by simp
      from IH e consider
        (near) j where "j < n" "cs ! j \<noteq> []" "\<forall>k. j < k \<and> k < n \<longrightarrow> cs ! k = []"
                      "carry_forward lc' cs ! n = cs ! j"
        | (none) "\<forall>j<n. cs ! j = []" "carry_forward lc' cs ! n = lc'"
        by blast
      then show "(\<exists>j<i. (c # cs) ! j \<noteq> [] \<and> (\<forall>k. j < k \<and> k < i \<longrightarrow> (c # cs) ! k = []) \<and>
                 carry_forward lc (c # cs) ! i = (c # cs) ! j)
             \<or> ((\<forall>j<i. (c # cs) ! j = []) \<and> carry_forward lc (c # cs) ! i = lc)"
      proof cases
        case near
        have "Suc j < i" using near(1) Suc by simp
        moreover have "(c # cs) ! Suc j \<noteq> []" using near(2) by simp
        moreover have "\<forall>k. Suc j < k \<and> k < i \<longrightarrow> (c # cs) ! k = []"
        proof (intro allI impI)
          fix k assume k: "Suc j < k \<and> k < i"
          then obtain k' where k': "k = Suc k'" by (cases k) auto
          with k Suc near(3) show "(c # cs) ! k = []" by simp
        qed
        moreover have "carry_forward lc (c # cs) ! i = (c # cs) ! Suc j"
          using cf near(4) by simp
        ultimately show ?thesis by blast
      next
        case none
        show ?thesis
        proof (cases "c = []")
          case True
          have "\<forall>j<i. (c # cs) ! j = []"
          proof (intro allI impI)
            fix j assume "j < i"
            then show "(c # cs) ! j = []" using True none(1) Suc by (cases j) auto
          qed
          moreover have "carry_forward lc (c # cs) ! i = lc"
            using cf none(2) True by (simp add: lc'_def)
          ultimately show ?thesis by blast
        next
          case False
          have "0 < i" using Suc by simp
          moreover have "(c # cs) ! 0 \<noteq> []" using False by simp
          moreover have "\<forall>k. 0 < k \<and> k < i \<longrightarrow> (c # cs) ! k = []"
          proof (intro allI impI)
            fix k assume k: "0 < k \<and> k < i"
            then obtain k' where "k = Suc k'" by (cases k) auto
            with k Suc none(1) show "(c # cs) ! k = []" by simp
          qed
          moreover have "carry_forward lc (c # cs) ! i = (c # cs) ! 0"
            using cf none(2) False by (simp add: lc'_def)
          ultimately show ?thesis by blast
        qed
      qed
    qed
  qed
qed

lemma parseMods_emit_rows:
  "parseMods markdown = emit_rows [] (data_rows (split_lines markdown))"
  using parse_loop_mods_append[of "in_table_state []" "table_body (split_lines markdown)"]
  by (simp add: parseMods_body in_table_state_def data_rows_def table_body_def)

text \<open>
  C5. The records correspond one to one to the data rows. A row whose (trimmed) creator cell
  is not empty yields a record with that creator; a row whose creator cell is empty yields
  the creator cell of the nearest preceding row that has one, and the empty string when
  there is no such row. The running creator starts empty and is never reset.
\<close>

theorem parseMods_creator_carry_forward:
  "length (parseMods markdown) = length (data_rows (split_lines markdown))
   \<and> (\<forall>i < length (data_rows (split_lines markdown)).
        (data_rows (split_lines markdown) ! i ! 0 \<noteq> [] \<longrightarrow>
           creator (parseMods markdown ! i) = data_rows (split_lines markdown) ! i ! 0)
        \<and> (data_rows (split_lines markdown) ! i ! 0 = [] \<longrightarrow>
             (\<exists>j<i. data_rows (split_lines markdown) ! j ! 0 \<noteq> []
                   \<and> (\<forall>k. j < k \<and> k < i \<longrightarrow> data_rows (split_lines markdown) ! k ! 0 = [])
                   \<and> creator (parseMods markdown ! i) = data_rows (split_lines markdown) ! j ! 0)
             \<or> ((\<forall>j<i. data_rows (split_lines markdown) ! j ! 0 = [])
                 \<and> creator (parseMods markdown ! i) = [])))"
proof -
  define rows where "rows = data_rows (split_lines markdown)"
  define cs where "cs = map (\<lambda>cells. cells ! 0) rows"
  have cr: "map creator (parseMods markdown) = carry_forward [] cs"
    by (simp add: parseMods_emit_rows creator_emit_rows rows_def cs_def)
  have len: "length (parseMods markdown) = length rows"
    using arg_cong[OF cr, of length] by (simp add: cs_def)
  have nth_cs: "\<And>i. i < length rows \<Longrightarrow> cs ! i = rows ! i ! 0"
    by (simp add: cs_def)
  have nth_cr: "\<And>i. i < length rows \<Longrightarrow> creator (parseMods markdown ! i) = carry_forward [] cs ! i"
    using cr len by (metis nth_map)
  have "\<forall>i < length rows.
        (rows ! i ! 0 \<noteq> [] \<longrightarrow> creator (parseMods markdown ! i) = rows ! i ! 0)
        \<and> (rows ! i ! 0 = [] \<longrightarrow>
             (\<exists>j<i. rows ! j ! 0 \<noteq> []
                   \<and> (\<forall>k. j < k \<and> k < i \<longrightarrow> rows ! k ! 0 = [])
                   \<and> creator (parseMods markdown ! i) = rows ! j ! 0)
             \<or> ((\<forall>j<i. rows ! j ! 0 = []) \<and> creator (parseMods markdown ! i) = []))"
  proof (intro allI impI)
    fix i assume i: "i < length rows"
    then have ics: "i < length cs" by (simp add: cs_def)
    have below: "\<And>j. j < i \<Longrightarrow> cs ! j = rows ! j ! 0" using i by (simp add: nth_cs)
    have inner: "\<And>j. j < i \<Longrightarrow> (\<forall>k. j < k \<and> k < i \<longrightarrow> cs ! k = [])
                   \<Longrightarrow> (\<forall>k. j < k \<and> k < i \<longrightarrow> rows ! k ! 0 = [])"
      using below by auto
    note cf = carry_forward_nth[OF ics, of "[]", unfolded nth_cs[OF i], folded nth_cr[OF i]]
    show "(rows ! i ! 0 \<noteq> [] \<longrightarrow> creator (parseMods markdown ! i) = rows ! i ! 0)
        \<and> (rows ! i ! 0 = [] \<longrightarrow>
             (\<exists>j<i. rows ! j ! 0 \<noteq> []
                   \<and> (\<forall>k. j < k \<and> k < i \<longrightarrow> rows ! k ! 0 = [])
                   \<and> creator (parseMods markdown ! i) = rows ! j ! 0)
             \<or> ((\<forall>j<i. rows ! j ! 0 = []) \<and> creator (parseMods markdown ! i) = []))"
    proof (intro conjI impI)
      assume "rows ! i ! 0 \<noteq> []"
      with cf show "creator (parseMods markdown ! i) = rows ! i ! 0" by blast
    next
      assume "rows ! i ! 0 = []"
      with cf consider
        (near) j where "j < i" "cs ! j \<noteq> []" "\<forall>k. j < k \<and> k < i \<longrightarrow> cs ! k = []"
                      "creator (parseMods markdown ! i) = cs ! j"
        | (none) "\<forall>j<i. cs ! j = []" "creator (parseMods markdown ! i) = []"
        by blast
      then show "(\<exists>j<i. rows ! j ! 0 \<noteq> []
                   \<and> (\<forall>k. j < k \<and> k < i \<longrightarrow> rows ! k ! 0 = [])
                   \<and> creator (parseMods markdown ! i) = rows ! j ! 0)
             \<or> ((\<forall>j<i. rows ! j ! 0 = []) \<and> creator (parseMods markdown ! i) = [])"
      proof cases
        case near
        from near(1,2) below have "rows ! j ! 0 \<noteq> []" by simp
        moreover from inner[OF near(1) near(3)]
        have "\<forall>k. j < k \<and> k < i \<longrightarrow> rows ! k ! 0 = []" .
        moreover from near(1,4) below
        have "creator (parseMods markdown ! i) = rows ! j ! 0" by simp
        ultimately show ?thesis using near(1) by blast
      next
        case none
        with below show ?thesis by simp
      qed
    qed
  qed
  with len show ?thesis unfolding rows_def by blast
qed

theorem parseMods_creator_carry_forward_witness:
  "map (\<lambda>cells. cells ! 0) (data_rows (split_lines merged_creator_doc)) = [''Alice'', []]
   \<and> map creator (parseMods merged_creator_doc) = [''Alice'', ''Alice'']"
proof -
  define rows where "rows = data_rows (split_lines merged_creator_doc)"
  define ms where "ms = parseMods merged_creator_doc"
  have cells: "map (\<lambda>cells. cells ! 0) rows = [''Alice'', []]"
    unfolding rows_def by code_simp
  have len: "length rows = 2" using arg_cong[OF cells, of length] by simp
  have r0: "rows ! 0 ! 0 = ''Alice''" and r1: "rows ! 1 ! 0 = []"
    using arg_cong[OF cells, of "\<lambda>xs. xs ! 0"] arg_cong[OF cells, of "\<lambda>xs. xs ! 1"] len
    by simp_all
  note th = parseMods_creator_carry_forward[of merged_creator_doc, folded rows_def ms_def]
  from th len have l2: "length ms = 2" by simp
  from th have all: "\<And>i. i < length rows \<Longrightarrow>
        (rows ! i ! 0 \<noteq> [] \<longrightarrow> creator (ms ! i) = rows ! i ! 0)
        \<and> (rows ! i ! 0 = [] \<longrightarrow>
             (\<exists>j<i. rows ! j ! 0 \<noteq> []
                   \<and> (\<forall>k. j < k \<and> k < i \<longrightarrow> rows ! k ! 0 = [])
                   \<and> creator (ms ! i) = rows ! j ! 0)
             \<or> ((\<forall>j<i. rows ! j ! 0 = []) \<and> creator (ms ! i) = []))"
    by blast
  from all[of 0] len r0 have c0: "creator (ms ! 0) = ''Alice''" by simp
  from all[of 1] len r1 have
    "(\<exists>j<1. rows ! j ! 0 \<noteq> [] \<and> creator (ms ! 1) = rows ! j ! 0)
       \<or> ((\<forall>j<1. rows ! j ! 0 = []) \<and> creator (ms ! 1) = [])"
    by auto
  with r0 have c1: "creator (ms ! 1) = ''Alice''" by auto
  have "map creator ms = [creator (ms ! 0), creator (ms ! 1)]"
    using l2 by (auto simp: list_eq_iff_nth_eq nth_Cons' less_Suc_eq numeral_2_eq_2)
  with c0 c1 cells show ?thesis unfolding rows_def ms_def by simp
qed

subsection \<open>Title cells\<close>

lemma link_at_shape:
  assumes "link_at s = Some (t, l)"
  shows "\<exists>post. link_shape s [] t l post"
proof -
  from assms obtain r where s: "s = CHR ''['' # r"
    by (cases s) (auto simp: link_at_def split: if_splits)
  let ?P = "\<lambda>x. x \<noteq> CHR '']''" and ?Q = "\<lambda>x. x \<noteq> CHR '')''"
  from assms s have t: "t = takeWhile ?P r" "t \<noteq> []"
    by (auto simp: link_at_def Let_def split: if_splits list.splits)
  from assms s obtain x r2 where r1: "dropWhile ?P r = x # CHR ''('' # r2"
    by (auto simp: link_at_def Let_def split: if_splits list.splits)
  from assms s r1 have l: "l = takeWhile ?Q r2" "l \<noteq> []" "dropWhile ?Q r2 \<noteq> []"
    by (auto simp: link_at_def Let_def split: if_splits list.splits)
  have x: "x = CHR '']''"
    using hd_dropWhile[of ?P r] r1 by simp
  from l(3) obtain y post where r3: "dropWhile ?Q r2 = y # post" by (cases "dropWhile ?Q r2") auto
  have y: "y = CHR '')''"
    using hd_dropWhile[of ?Q r2] r3 by simp
  have "r = t @ dropWhile ?P r" by (simp add: t(1))
  moreover have "r2 = l @ dropWhile ?Q r2" by (simp add: l(1))
  ultimately have "s = [] @ ''['' @ t @ '']('' @ l @ '')'' @ post"
    using s r1 r3 x y by simp
  moreover have "CHR '']'' \<notin> set t" using set_takeWhileD[of "CHR '']''" ?P r] t(1) by auto
  moreover have "CHR '')'' \<notin> set l" using set_takeWhileD[of "CHR '')''" ?Q r2] l(1) by auto
  ultimately show ?thesis using t(2) l(2) unfolding link_shape_def by blast
qed

lemma shape_link_at:
  assumes "link_shape s [] t l post"
  shows "link_at s = Some (t, l)"
proof -
  let ?P = "\<lambda>x. x \<noteq> CHR '']''" and ?Q = "\<lambda>x. x \<noteq> CHR '')''"
  from assms have s: "s = CHR ''['' # t @ CHR '']'' # CHR ''('' # l @ CHR '')'' # post"
    and t: "t \<noteq> []" "\<forall>x\<in>set t. ?P x" and l: "l \<noteq> []" "\<forall>x\<in>set l. ?Q x"
    by (auto simp: link_shape_def)
  have tw1: "takeWhile ?P (t @ CHR '']'' # CHR ''('' # l @ CHR '')'' # post) = t"
    using t(2) by (simp add: takeWhile_tail)
  have dw1: "dropWhile ?P (t @ CHR '']'' # CHR ''('' # l @ CHR '')'' # post)
              = CHR '']'' # CHR ''('' # l @ CHR '')'' # post"
    using t(2) by (simp add: dropWhile_append3)
  have tw2: "takeWhile ?Q (l @ CHR '')'' # post) = l"
    using l(2) by (simp add: takeWhile_tail)
  have dw2: "dropWhile ?Q (l @ CHR '')'' # post) = CHR '')'' # post"
    using l(2) by (simp add: dropWhile_append3)
  show ?thesis
    unfolding link_at_def s using t(1) l(1) by (simp add: tw1 dw1 tw2 dw2 Let_def)
qed

lemma link_shape_Cons:
  "link_shape (c # cs) (c' # p) t l post \<longleftrightarrow> c = c' \<and> link_shape cs p t l post"
  by (auto simp: link_shape_def)

lemma link_shape_Nil [simp]: "\<not> link_shape [] pre t l post"
  by (simp add: link_shape_def)

lemma link_match_shape:
  "link_match s = Some (t, l) \<Longrightarrow>
   \<exists>pre post. link_shape s pre t l post \<and>
      (\<forall>pre' t' l' post'. link_shape s pre' t' l' post' \<longrightarrow> length pre \<le> length pre')"
proof (induction s)
  case Nil
  then show ?case by simp
next
  case (Cons c cs)
  show ?case
  proof (cases "link_at (c # cs)")
    case (Some m)
    with Cons.prems have "link_at (c # cs) = Some (t, l)" by simp
    from link_at_shape[OF this] obtain post where "link_shape (c # cs) [] t l post" ..
    then show ?thesis by (intro exI[of _ "[]"] exI[of _ post]) simp
  next
    case None
    with Cons.prems have "link_match cs = Some (t, l)" by simp
    from Cons.IH[OF this] obtain pre post where sh: "link_shape cs pre t l post"
      and least: "\<forall>pre' t' l' post'. link_shape cs pre' t' l' post' \<longrightarrow> length pre \<le> length pre'"
      by blast
    have "link_shape (c # cs) (c # pre) t l post" using sh by (simp add: link_shape_Cons)
    moreover have "\<forall>pre' t' l' post'. link_shape (c # cs) pre' t' l' post'
                     \<longrightarrow> length (c # pre) \<le> length pre'"
    proof (intro allI impI)
      fix pre' t' l' post' assume a: "link_shape (c # cs) pre' t' l' post'"
      show "length (c # pre) \<le> length pre'"
      proof (cases pre')
        case Nil
        with a shape_link_at[of "c # cs" t' l' post'] None show ?thesis by simp
      next
        case (Cons c' p')
        with a have "link_shape cs p' t' l' post'" by (simp add: link_shape_Cons)
        with least have "length pre \<le> length p'" by blast
        with Cons show ?thesis by simp
      qed
    qed
    ultimately show ?thesis by blast
  qed
qed

lemma shape_link_match:
  "link_shape s pre t l post \<Longrightarrow> link_match s \<noteq> None"
proof (induction pre arbitrary: s)
  case Nil
  from shape_link_at[OF Nil] show ?case by (cases s) (auto simp: link_at_def)
next
  case (Cons c pre)
  then obtain cs where s: "s = c # cs" and sh: "link_shape cs pre t l post"
    by (cases s) (auto simp: link_shape_Cons)
  from Cons.IH[OF sh] show ?case by (simp add: s split: option.splits)
qed

text \<open>
  C6. When the title cell contains a markdown link, the leftmost one decides: its text,
  trimmed, is the title; a leading \<^verbatim>\<open>./\<close> is stripped from the target; a stripped target that
  is an absolute http(s) URL is the link itself and there is no source path; otherwise the
  link is the mod base URL, a slash and the stripped target, which is kept as the source
  path. Without a link the cell is the title, the link is the catalog root and there is no
  source path.
\<close>

theorem extractLink_cases:
  "if \<exists>pre text target post. link_shape cell pre text target post
   then \<exists>pre text target post.
          link_shape cell pre text target post
          \<and> (\<forall>pre' text' target' post'.
                link_shape cell pre' text' target' post' \<longrightarrow> length pre \<le> length pre')
          \<and> extractLink cell =
              (trim text,
               if is_http_url (strip_dot_slash target) then strip_dot_slash target
               else MOD_BASE_URL @ ''/'' @ strip_dot_slash target,
               if is_http_url (strip_dot_slash target) then None
               else Some (strip_dot_slash target))
   else extractLink cell = (cell, MOD_BASE_URL, None)"
proof (cases "link_match cell")
  case None
  then have "\<not> (\<exists>pre text target post. link_shape cell pre text target post)"
    using shape_link_match by blast
  then show ?thesis using None by (simp add: extractLink_def)
next
  case (Some m)
  obtain t l where m: "m = (t, l)" by (cases m)
  from link_match_shape[of cell t l] Some m obtain pre post
    where sh: "link_shape cell pre t l post"
      and least: "\<forall>pre' t' l' post'. link_shape cell pre' t' l' post' \<longrightarrow> length pre \<le> length pre'"
    by blast
  have ex: "extractLink cell =
              (trim t,
               if is_http_url (strip_dot_slash l) then strip_dot_slash l
               else MOD_BASE_URL @ ''/'' @ strip_dot_slash l,
               if is_http_url (strip_dot_slash l) then None else Some (strip_dot_slash l))"
    using Some m by (simp add: extractLink_def Let_def)
  have "\<exists>pre text target post. link_shape cell pre text target post" using sh by blast
  moreover have "\<exists>pre text target post.
          link_shape cell pre text target post
          \<and> (\<forall>pre' text' target' post'.
                link_shape cell pre' text' target' post' \<longrightarrow> length pre \<le> length pre')
          \<and> extractLink cell =
              (trim text,
               if is_http_url (strip_dot_slash target) then strip_dot_slash target
               else MOD_BASE_URL @ ''/'' @ strip_dot_slash target,
               if is_http_url (strip_dot_slash target) then None
               else Some (strip_dot_slash target))"
    using sh least ex by blast
  ultimately show ?thesis by (simp only: if_True)
qed

theorem extractLink_cases_witness:
  "link_shape ''[Cool Mod](./cool-mod)'' [] ''Cool Mod'' ''./cool-mod'' []
   \<and> extractLink ''[Cool Mod](./cool-mod)''
       = (''Cool Mod'',
          ''https://github.com/VoronDesign/VoronUsers/tree/master/printer_mods/cool-mod'',
          Some ''cool-mod'')
   \<and> \<not> (\<exists>pre text target post. link_shape ''plain title'' pre text target post)
   \<and> extractLink ''plain title'' = (''plain title'', MOD_BASE_URL, None)"
proof -
  let ?c = "''[Cool Mod](./cool-mod)''"
  have sh: "link_shape ?c [] ''Cool Mod'' ''./cool-mod'' []" by (simp add: link_shape_def)
  then have ex: "\<exists>pre text target post. link_shape ?c pre text target post" by blast
  from extractLink_cases[of ?c] ex obtain pre tx tg post
    where sh': "link_shape ?c pre tx tg post"
      and least: "\<forall>pre' text' target' post'.
                link_shape ?c pre' text' target' post' \<longrightarrow> length pre \<le> length pre'"
      and res: "extractLink ?c =
              (trim tx,
               if is_http_url (strip_dot_slash tg) then strip_dot_slash tg
               else MOD_BASE_URL @ ''/'' @ strip_dot_slash tg,
               if is_http_url (strip_dot_slash tg) then None
               else Some (strip_dot_slash tg))"
    by (simp only: if_True) blast
  from least sh have "pre = []" by fastforce
  with sh' have "tx = ''Cool Mod'' \<and> tg = ''./cool-mod''"
    using shape_link_at[OF sh] shape_link_at[of ?c tx tg post] by simp
  with res have r1: "extractLink ?c = (''Cool Mod'',
          ''https://github.com/VoronDesign/VoronUsers/tree/master/printer_mods/cool-mod'',
          Some ''cool-mod'')"
    by (simp add: trim_def is_space_def strip_dot_slash_def startsWith_def is_http_url_def
          toLowerCase_def lower_char_def MOD_BASE_URL_def Let_def)
  have none: "link_match ''plain title'' = None" by code_simp
  have nex: "\<not> (\<exists>pre text target post. link_shape ''plain title'' pre text target post)"
    using shape_link_match none by blast
  with extractLink_cases[of "''plain title''"]
  have r2: "extractLink ''plain title'' = (''plain title'', MOD_BASE_URL, None)"
    by (simp only: if_False)
  from sh r1 nex r2 show ?thesis by blast
qed

section \<open>Properties of the image resolver and the cache\<close>

subsection \<open>Requests and state of the single steps\<close>

lemma fetchPreviewImage_state:
  "fetchPreviewImage e p st = (img, st') \<Longrightarrow> st' = st\<lparr>requests := requests st @ [readme_of p]\<rparr>"
  by (auto simp: fetchPreviewImage_def Let_def split: fetch_result.splits sum.splits)

lemma downloadBuffer_Inr:
  "downloadBuffer e url st = Inr (b, st') \<Longrightarrow> st' = st\<lparr>requests := requests st @ [url]\<rparr>"
  by (auto simp: downloadBuffer_def Let_def split: fetch_result.splits)


lemma maybeMaterializeImage_Inr:
  assumes "maybeMaterializeImage e url st = Inr (f, st')"
  shows "cache st' = cache st" "usedLocalImages st' = usedLocalImages st"
    "requests st' = requests st \<or> requests st' = requests st @ [url]"
    "f = url \<or> f = ''/mod-images/'' @ hex_digest (md5 e url) @ ''.jpg''"
    "cacheHits st' = cacheHits st"
  using assms
  by (auto simp: maybeMaterializeImage_def Let_def
      split: if_splits sum.splits option.splits prod.splits dest!: downloadBuffer_Inr)






subsection \<open>Batches\<close>

lemma run_batch_append:
  "run_batch e (xs @ ys) st =
     (case run_batch e xs st of
        Inl err \<Rightarrow> Inl err
      | Inr (xs', st') \<Rightarrow>
          (case run_batch e ys st' of
             Inl err \<Rightarrow> Inl err
           | Inr (ys', st'') \<Rightarrow> Inr (xs' @ ys', st'')))"
  by (induction xs arbitrary: st) (auto split: sum.splits prod.splits)

lemma batch_loop_flat: "batch_loop e ms i st = run_batch e (drop i ms) st"
proof (induction e ms i st rule: batch_loop.induct)
  case (1 e ms i st)
  show ?case
  proof (cases "i < length ms")
    case False
    then show ?thesis by (subst batch_loop.simps) simp
  next
    case True
    have split: "drop i ms = take IMAGE_FETCH_CONCURRENCY (drop i ms)
                   @ drop (i + IMAGE_FETCH_CONCURRENCY) ms"
      by (metis append_take_drop_id drop_drop add.commute)
    show ?thesis
    proof (cases "run_batch e (take IMAGE_FETCH_CONCURRENCY (drop i ms)) st")
      case (Inl err)
      then show ?thesis
        using True by (subst batch_loop.simps, subst split, simp add: run_batch_append)
    next
      case (Inr r)
      obtain b' st' where r: "r = (b', st')" by (cases r)
      from "1.IH"[OF True Inr[unfolded r] refl] 
      have "batch_loop e ms (i + IMAGE_FETCH_CONCURRENCY) st'
             = run_batch e (drop (i + IMAGE_FETCH_CONCURRENCY) ms) st'" .
      then show ?thesis
        using True Inr r by (subst batch_loop.simps, subst split, simp add: run_batch_append)
    qed
  qed
qed

lemma addPreviewImages_flat: "addPreviewImages e ms st = run_batch e ms st"
  by (simp add: addPreviewImages_def batch_loop_flat)

subsection \<open>What one callback changes\<close>

lemma resolve_fresh_image:
  assumes "resolve_fresh e m p st = Inr (m', st')"
  shows "(m' = m \<and> usedLocalImages st' = usedLocalImages st)
         \<or> (\<exists>u. m' = m\<lparr>image := Some u\<rparr>
                \<and> (usedLocalImages st' = usedLocalImages st
                    \<or> usedLocalImages st' = insert u (usedLocalImages st)))"
proof -
  obtain img st1 where f: "fetchPreviewImage e p st = (img, st1)"
    by (cases "fetchPreviewImage e p st")
  note s1 = fetchPreviewImage_state[OF f]
  show ?thesis
  proof (cases "truthy img")
    case False
    with assms f s1 show ?thesis
      by (auto simp: resolve_fresh_def truthy_def split: option.splits)
  next
    case True
    then obtain i where i: "img = Some i" "i \<noteq> []" by (auto simp: truthy_def split: option.splits)
    with assms f obtain fin st3 where
      mm: "maybeMaterializeImage e i (st1\<lparr>downloads := downloads st1 + 1\<rparr>) = Inr (fin, st3)"
      by (auto simp: resolve_fresh_def split: sum.splits)
    note r = maybeMaterializeImage_Inr[OF mm]
    from assms f i mm r(2) s1 show ?thesis
      by (auto simp: resolve_fresh_def Let_def split: if_splits)
  qed
qed

lemma process_mod_image:
  assumes "process_mod e m st = Inr (m', st')"
  shows "(m' = m \<and> usedLocalImages st' = usedLocalImages st)
         \<or> (\<exists>u. m' = m\<lparr>image := Some u\<rparr>
                \<and> (usedLocalImages st' = usedLocalImages st
                    \<or> usedLocalImages st' = insert u (usedLocalImages st)))"
proof (cases "\<exists>p. sourcePath m = Some p \<and> p \<noteq> [] \<and> process_mod e m st = resolve_fresh e m p st")
  case True
  with assms resolve_fresh_image show ?thesis by metis
next
  case False
  with assms show ?thesis
    by (auto simp: process_mod_def truthy_def isLocalImage_def split: option.splits if_splits)
qed


lemma run_batch_fields:
  "run_batch e ms st = Inr (ms', st') \<Longrightarrow>
   length ms' = length ms \<and> (\<forall>i < length ms. ms' ! i = (ms ! i)\<lparr>image := image (ms' ! i)\<rparr>)"
proof (induction ms arbitrary: st ms' st')
  case Nil
  then show ?case by simp
next
  case (Cons m ms)
  from Cons.prems obtain m1 st1 ms1 where
    p: "process_mod e m st = Inr (m1, st1)" and
    b: "run_batch e ms st1 = Inr (ms1, st')" and ms': "ms' = m1 # ms1"
    by (auto split: sum.splits prod.splits)
  from process_mod_image[OF p] have m1: "m1 = m\<lparr>image := image m1\<rparr>" by auto
  from Cons.IH[OF b] have len: "length ms1 = length ms"
    and nth: "\<forall>i < length ms. ms1 ! i = (ms ! i)\<lparr>image := image (ms1 ! i)\<rparr>" by auto
  show ?case
  proof (intro conjI allI impI)
    show "length ms' = length (m # ms)" using len ms' by simp
  next
    fix i assume "i < length (m # ms)"
    then show "ms' ! i = ((m # ms) ! i)\<lparr>image := image (ms' ! i)\<rparr>"
      using m1 nth ms' by (cases i) auto
  qed
qed

subsection \<open>Sorting\<close>

lemma set_insert_by_title [simp]: "set (insert_by_title cmp x ys) = insert x (set ys)"
  by (induction ys) auto

lemma set_foldl_insert:
  "set (foldl (\<lambda>sorted x. insert_by_title cmp x sorted) acc xs) = set acc \<union> set xs"
  by (induction xs arbitrary: acc) auto

lemma set_sort_by_title [simp]: "set (sort_by_title cmp xs) = set xs"
  by (simp add: sort_by_title_def set_foldl_insert)

subsection \<open>Persisted objects\<close>


lemma stringify_to_mod:
  "authorSlug d = map_option first_segment (sourcePath d) \<Longrightarrow>
   stringify_props (to_mod (d\<lparr>image := img\<rparr>)) = stringify_props (mod_fields d img)"
  by (cases "sourcePath d"; cases "lastChanged d"; cases img)
     (simp_all add: stringify_props_def to_mod_def draft_props_def mod_fields_def
        List.map_filter_def Let_def truthy_def)

lemma keys_mod_fields:
  "set (map fst (stringify_props (mod_fields d img)))
     \<subseteq> {''creator'', ''title'', ''description'', ''link'', ''compatibility'', ''lastChanged'',
        ''authorSlug'', ''image'', ''repoPath'', ''readmeUrl''}"
  by (auto simp: stringify_props_def mod_fields_def List.map_filter_def
      split: option.splits if_splits)

subsection \<open>The run as a whole\<close>

lemma main_Inr:
  assumes "main e imageCache dir0 = Inr out"
  obtains markdown drafts' st where
    "fetch e 0 (readme_url e) = Body markdown"
    "run_batch e (sort_by_title (localeCompare e) (parseMods markdown))
       \<lparr>cache = imageCache, dir = dir0, usedLocalImages = {}, requests = [readme_url e],
        cacheHits = 0, downloads = 0, gifConversions = 0\<rparr> = Inr (drafts', st)"
    "snapshot_mods out = map (\<lambda>draft. stringify_props (to_mod draft)) drafts'"
    "final_dir out = filter (\<lambda>file. ''/mod-images/'' @ file \<in> usedLocalImages st) (dir st)"
    "used_images out = usedLocalImages st"
  using assms
  by (auto simp: main_def Let_def addPreviewImages_flat cleanupUnusedLocalImages_def
      split: fetch_result.splits sum.splits prod.splits)



subsection \<open>Persisted fields\<close>

lemma make_mod_authorSlug:
  "authorSlug (make_mod c t d k l) = map_option first_segment (sourcePath (make_mod c t d k l))"
  by (simp add: make_mod_def split: prod.splits)

lemma emit_rows_authorSlug:
  "d \<in> set (emit_rows lc rows) \<Longrightarrow> authorSlug d = map_option first_segment (sourcePath d)"
  by (induction rows arbitrary: lc) (auto simp: Let_def make_mod_authorSlug)

lemma parseMods_authorSlug:
  "d \<in> set (parseMods markdown) \<Longrightarrow> authorSlug d = map_option first_segment (sourcePath d)"
  by (simp add: parseMods_emit_rows emit_rows_authorSlug)

lemma length_insert_by_title [simp]: "length (insert_by_title cmp x ys) = Suc (length ys)"
  by (induction ys) auto

lemma length_foldl_insert:
  "length (foldl (\<lambda>sorted x. insert_by_title cmp x sorted) acc xs) = length acc + length xs"
  by (induction xs arbitrary: acc) auto

lemma length_sort_by_title [simp]: "length (sort_by_title cmp xs) = length xs"
  by (simp add: sort_by_title_def length_foldl_insert)

text \<open>
  C9, as the script has it. The mods of the snapshot correspond one to one to the sorted
  drafts, and each consists of the fields of its draft less \<^verbatim>\<open>sourcePath\<close>, of \<^verbatim>\<open>authorSlug\<close>
  (the first segment of the source path, when there is one), and of the optional \<^verbatim>\<open>image\<close>,
  \<^verbatim>\<open>repoPath\<close> (\<^verbatim>\<open>printer_mods/\<close> and the source path) and \<^verbatim>\<open>readmeUrl\<close> (the blob base, the
  source path and \<^verbatim>\<open>README.md\<close>), the last two when the source path is not empty. No other
  field appears.
\<close>

theorem main_persisted_fields:
  assumes "fetch e 0 (readme_url e) = Body markdown"
    and "main e imageCache dir0 = Inr out"
  shows "length (snapshot_mods out) = length (parseMods markdown)
       \<and> (\<forall>i < length (snapshot_mods out).
            \<exists>img. snapshot_mods out ! i =
               stringify_props
                 (mod_fields (sort_by_title (localeCompare e) (parseMods markdown) ! i) img))
       \<and> (\<forall>obj \<in> set (snapshot_mods out).
            set (map fst obj)
              \<subseteq> {''creator'', ''title'', ''description'', ''link'', ''compatibility'',
                 ''lastChanged'', ''authorSlug'', ''image'', ''repoPath'', ''readmeUrl''})"
proof -
  define ds where "ds = sort_by_title (localeCompare e) (parseMods markdown)"
  from assms(2) obtain markdown' drafts' st where
    f: "fetch e 0 (readme_url e) = Body markdown'" and
    run: "run_batch e (sort_by_title (localeCompare e) (parseMods markdown'))
       \<lparr>cache = imageCache, dir = dir0, usedLocalImages = {}, requests = [readme_url e],
        cacheHits = 0, downloads = 0, gifConversions = 0\<rparr> = Inr (drafts', st)"
    and snap: "snapshot_mods out = map (\<lambda>draft. stringify_props (to_mod draft)) drafts'"
    by (rule main_Inr)
  from f assms(1) have "markdown' = markdown" by simp
  with run_batch_fields[OF run] have len: "length drafts' = length ds"
    and nth: "\<And>i. i < length ds \<Longrightarrow> drafts' ! i = (ds ! i)\<lparr>image := image (drafts' ! i)\<rparr>"
    by (simp_all add: ds_def)
  have slug: "authorSlug (ds ! i) = map_option first_segment (sourcePath (ds ! i))"
    if "i < length ds" for i
    using that parseMods_authorSlug[of "ds ! i" markdown] nth_mem[OF that]
    by (simp add: ds_def)
  have obj: "snapshot_mods out ! i = stringify_props (mod_fields (ds ! i) (image (drafts' ! i)))"
    if "i < length ds" for i
  proof -
    have "snapshot_mods out ! i = stringify_props (to_mod (drafts' ! i))"
      using that len snap by simp
    also have "\<dots> = stringify_props (to_mod ((ds ! i)\<lparr>image := image (drafts' ! i)\<rparr>))"
      using nth[OF that] by simp
    also have "\<dots> = stringify_props (mod_fields (ds ! i) (image (drafts' ! i)))"
      by (rule stringify_to_mod[OF slug[OF that]])
    finally show ?thesis .
  qed
  have l1: "length (snapshot_mods out) = length (parseMods markdown)"
    using snap len by (simp add: ds_def)
  have l2: "\<forall>i < length (snapshot_mods out).
            \<exists>img. snapshot_mods out ! i = stringify_props (mod_fields (ds ! i) img)"
    using obj snap len by auto
  have l3: "\<forall>obj \<in> set (snapshot_mods out).
            set (map fst obj)
              \<subseteq> {''creator'', ''title'', ''description'', ''link'', ''compatibility'',
                 ''lastChanged'', ''authorSlug'', ''image'', ''repoPath'', ''readmeUrl''}"
  proof
    fix ob assume "ob \<in> set (snapshot_mods out)"
    then obtain i where i: "i < length (snapshot_mods out)" "ob = snapshot_mods out ! i"
      by (auto simp: in_set_conv_nth)
    with l2 obtain img where "ob = stringify_props (mod_fields (ds ! i) img)" by auto
    with keys_mod_fields[of "ds ! i" img] show "set (map fst ob)
              \<subseteq> {''creator'', ''title'', ''description'', ''link'', ''compatibility'',
                 ''lastChanged'', ''authorSlug'', ''image'', ''repoPath'', ''readmeUrl''}"
      by simp
  qed
  from l1 l2 l3 show ?thesis unfolding ds_def by blast
qed

theorem main_persisted_fields_witness:
  "fetch (example_env gif_readme NotOk) 0 (readme_url (example_env gif_readme NotOk))
     = Body two_row_doc
   \<and> (\<exists>out. main (example_env gif_readme NotOk) Map.empty [] = Inr out
         \<and> length (snapshot_mods out) = 2
         \<and> list_all (\<lambda>obj. ''sourcePath'' \<notin> set (map fst obj)) (snapshot_mods out))"
proof -
  let ?e = "example_env gif_readme NotOk"
  have f: "fetch ?e 0 (readme_url ?e) = Body two_row_doc" by (simp add: example_env_def)
  have ok: "\<not> isl (main ?e Map.empty [])" by code_simp
  then obtain out where o: "main ?e Map.empty [] = Inr out"
    by (cases "main ?e Map.empty []") auto
  have len: "length (parseMods two_row_doc) = 2" by code_simp
  from main_persisted_fields[OF f o] len
  have "length (snapshot_mods out) = 2
         \<and> list_all (\<lambda>obj. ''sourcePath'' \<notin> set (map fst obj)) (snapshot_mods out)"
    by (auto simp: list_all_iff)
  with f o show ?thesis by blast
qed

text \<open>
  C9, as stated, fails: the mods of a snapshot carry the field \<^verbatim>\<open>authorSlug\<close>, which is not
  among the fields the claim allows.
\<close>

theorem snapshot_has_authorSlug_counterexample:
  "map_sum id (\<lambda>out. map (map fst) (snapshot_mods out))
     (main (example_env gif_readme NotOk) Map.empty [])
   = Inr [[''creator'', ''title'', ''description'', ''link'', ''compatibility'', ''lastChanged'',
           ''authorSlug'', ''image'', ''repoPath'', ''readmeUrl''],
          [''creator'', ''title'', ''description'', ''link'', ''compatibility'', ''lastChanged'',
           ''authorSlug'', ''image'', ''repoPath'', ''readmeUrl'']]
   \<and> map_sum id (\<lambda>out. map (\<lambda>obj. map_of obj ''authorSlug'') (snapshot_mods out))
     (main (example_env gif_readme NotOk) Map.empty [])
   = Inr [Some (JString ''alice''), Some (JString ''bob'')]"
  by code_simp

subsection \<open>Shape of a fresh image reference\<close>










subsection \<open>A download that throws\<close>

text \<open>
  C2 does not hold of the script. In this run the README of the first mod shows an animated
  GIF and the request for the GIF fails on the network: the promise of \<^verbatim>\<open>fetch\<close> rejects
  inside \<^verbatim>\<open>downloadBuffer\<close>, nothing catches it, the batch is rejected and \<^verbatim>\<open>main\<close> ends without a
  snapshot. When the same request is answered with an error status, both mods are written.
\<close>

theorem main_rejected_by_image_download:
  "map_sum id snapshot_mods (main (example_env gif_readme Rejected) Map.empty [])
     = Inl (DownloadThrew ''https://example.com/demo.gif''
              [''https://example.org/table.md'', readme_of ''alice/one'',
               ''https://example.com/demo.gif''])
   \<and> map_sum id (\<lambda>out. map (\<lambda>obj. map_of obj ''image'') (snapshot_mods out))
         (main (example_env gif_readme NotOk) Map.empty [])
     = Inr [Some (JString ''https://example.com/demo.gif''),
            Some (JString (RAW_BASE_URL @ ''/bob/two/shot.png''))]"
  by code_simp

text \<open>
  C7 does not hold of the script, by the same defect: for a GIF whose download throws,
  \<^verbatim>\<open>maybeMaterializeImage\<close> does not return the resolved URL but is rejected.
\<close>

theorem maybeMaterializeImage_download_throws:
  "map_sum id fst
     (maybeMaterializeImage (example_env gif_readme Rejected) ''https://example.com/demo.gif''
        (start_state Map.empty []))
   = Inl (DownloadThrew ''https://example.com/demo.gif'' [''https://example.com/demo.gif''])"
  by code_simp


end
